theory Spec2Isabelle
  imports Main
begin

text \<open>
  A shallow embedding of the post-processing and rendering code of uqr (\<open>encode.ts\<close>,
  \<open>render.ts\<close>, \<open>svg.ts\<close>) and the properties of its specification. Functions of the
  code are HOL functions of the same name; a function that can throw returns a sum whose
  left side is the error; loops are recursive functions; the matrix generator the code
  imports is a parameter.
\<close>

section \<open>Strings and numbers of the host language\<close>

text \<open>
  A string of the program is a sequence of UTF-16 code units. The renderers use code
  units beyond one byte (U+2588, U+3000), so a code unit is a natural number and a
  string a list of them. \<open>ascii\<close> embeds a literal of the source that is plain ASCII.
  Numbers of the program are double-precision floats. The model covers the integers a
  double holds exactly and on which its arithmetic is exact, the safe integers (absolute
  value at most 9007199254740991): sizes, coordinates and pixel sizes are integers, and
  where the code prints a number the model gives a string only for a safe integer.
  Fractions, infinities and integers beyond that range are outside the model.
\<close>

type_synonym jstring = "nat list"

definition ascii :: "string \<Rightarrow> jstring" where
  "ascii s = map of_char s"

text \<open>The decimal numeral of an integer: its digits, after a minus sign when negative.\<close>

fun digits :: "nat \<Rightarrow> jstring" where
  "digits n = (if n < 10 then [48 + n] else digits (n div 10) @ [48 + n mod 10])"

declare digits.simps [simp del]

definition decimal :: "int \<Rightarrow> jstring" where
  "decimal i = (if i < 0 then 45 # digits (nat (- i)) else digits (nat i))"

text \<open>\<open>Number.isSafeInteger\<close>, on the integers.\<close>

definition safe_integer :: "int \<Rightarrow> bool" where
  "safe_integer i = (\<bar>i\<bar> \<le> 9007199254740991)"

text \<open>
  Template interpolation \<open>${n}\<close> of a number: a safe integer prints as its decimal
  numeral. \<open>None\<close> says that the number is outside the model (a product beyond the safe
  range may be rounded, and a large number prints with an exponent); it is not an outcome
  of the code.
\<close>

definition num_str :: "int \<Rightarrow> jstring option" where
  "num_str i = (if safe_integer i then Some (decimal i) else None)"

text \<open>\<open>Array.prototype.join\<close>: the separator stands between elements only.\<close>

fun join :: "'a list \<Rightarrow> 'a list list \<Rightarrow> 'a list" where
  "join sep [] = []"
| "join sep [x] = x"
| "join sep (x # y # ys) = x @ sep @ join sep (y # ys)"

text \<open>A destructuring default: the default replaces an absent field.\<close>

definition dflt :: "'a \<Rightarrow> 'a option \<Rightarrow> 'a" where
  "dflt d v = (case v of None \<Rightarrow> d | Some x \<Rightarrow> x)"

text \<open>Reading an array at an index: \<open>None\<close> is the host language's \<open>undefined\<close>.\<close>

definition index :: "'a list \<Rightarrow> nat \<Rightarrow> 'a option" where
  "index xs i = (if i < length xs then Some (xs ! i) else None)"

section \<open>Data model\<close>

text \<open>
  The matrix generator (module \<open>./qrcode\<close>) and the enumeration of module types
  (module \<open>./types\<close>) are imported by the code and are not part of it. The generator's
  output is the record \<open>QrCode\<close>; the type of a module's semantic tag is the type
  parameter \<open>'t\<close>, the generator's segments \<open>'seg\<close>, its internal error-correction
  levels \<open>'ecc\<close> and the values it throws \<open>'e\<close>.
\<close>

record 't QrCode =
  qr_version :: int
  mask :: int
  qr_size :: int
  modules :: "bool list list"
  qr_types :: "'t list list"

record 't QrCodeGenerateResult =
  version :: int
  maskPattern :: int
  size_r :: int
  data :: "bool list list"
  types :: "'t list list"

datatype QrCodeGenerateData =
    Str jstring
  | Arr "int list"
  | Other jstring

text \<open>The result of \<open>typeof data\<close>; \<open>Array.isArray\<close> holds of \<open>Arr\<close> only.\<close>

fun typeof :: "QrCodeGenerateData \<Rightarrow> jstring" where
  "typeof (Str s) = ascii ''string''"
| "typeof (Arr a) = ascii ''object''"
| "typeof (Other t) = t"

text \<open>
  What \<open>encode\<close> and the renderers can throw. \<open>UnsupportedInputType\<close> carries the
  \<open>typeof\<close> of the rejected input, \<open>EncodingFailed\<close> a value thrown by the generator,
  \<open>CallbackFailed\<close> one thrown by the \<open>onEncoded\<close> callback, \<open>TypeError\<close> is a read
  of a property of \<open>undefined\<close>. \<open>InvalidEccLevel\<close> is the error kind the
  specification names for an unrecognized level; no statement of the code raises it.
\<close>

datatype 'e error =
    UnsupportedInputType jstring
  | InvalidEccLevel
  | EncodingFailed 'e
  | CallbackFailed 'e
  | TypeError

text \<open>
  One record holds the fields of every options type, each optional. The callback is
  handed the result object itself and can change it in place: it is a function from the
  state of the object to the value it throws (\<open>Inl\<close>) or to the state it leaves the
  object in (\<open>Inr\<close>); the value it returns is ignored by the code.
\<close>

record ('e, 't) QrCodeGenerateOptions =
  ecc :: "jstring option"
  boostEcc :: "bool option"
  minVersion :: "int option"
  maxVersion :: "int option"
  maskPattern_opt :: "int option"
  border :: "int option"
  invert :: "bool option"
  onEncoded :: "('t QrCodeGenerateResult \<Rightarrow> 'e + 't QrCodeGenerateResult) option"
  whiteChar :: "jstring option"
  blackChar :: "jstring option"
  pixelSize :: "int option"
  whiteColor :: "jstring option"
  blackColor :: "jstring option"

text \<open>
  The names the code imports from the generator and from the types module. \<open>EccMap s\<close>
  is the value of the property read \<open>EccMap[s]\<close>, \<open>None\<close> when it is \<open>undefined\<close>;
  which names have a value (the table's own keys, and any name an object inherits) is
  up to the parameter.
\<close>

record ('seg, 'ecc, 'e, 't) qrcode_imports =
  EccMap :: "jstring \<Rightarrow> 'ecc option"
  makeSegments :: "jstring \<Rightarrow> 'seg list"
  makeBytes :: "int list \<Rightarrow> 'seg"
  encodeSegments ::
    "'seg list \<Rightarrow> 'ecc option \<Rightarrow> int \<Rightarrow> int \<Rightarrow> int \<Rightarrow> bool \<Rightarrow> 'e + 't QrCode"
  Border :: 't

section \<open>encode.ts\<close>

text \<open>
  The loop \<open>for (i = 0; i < border; i++) { a.unshift(v); a.push(v) }\<close> on an array.
\<close>

fun unshift_push :: "nat \<Rightarrow> 'a \<Rightarrow> 'a list \<Rightarrow> 'a list" where
  "unshift_push 0 v a = a"
| "unshift_push (Suc n) v a = unshift_push n v (v # a @ [v])"

text \<open>\<open>Array.from({ length: n }, _ => v)\<close>: a negative length gives the empty array.\<close>

definition array_from :: "int \<Rightarrow> 'a \<Rightarrow> 'a list" where
  "array_from n v = replicate (nat n) v"

text \<open>
  \<open>addBorder\<close> mutates its input and returns it; the model returns the updated record.
  The first argument is \<open>QrCodeDataType.Border\<close>.
\<close>

definition addBorder ::
  "'t \<Rightarrow> 't QrCodeGenerateResult \<Rightarrow> int \<Rightarrow> 't QrCodeGenerateResult" where
  "addBorder b input bw =
     (if bw = 0 then input
      else
        let newSize = size_r input + bw * 2 in
        input\<lparr>size_r := newSize,
          data := unshift_push (nat bw) (array_from newSize False)
                    (map (unshift_push (nat bw) False) (data input)),
          types := unshift_push (nat bw) (array_from newSize b)
                    (map (unshift_push (nat bw) b) (types input))\<rparr>)"

text \<open>The segments of the input, \<open>None\<close> where the code leaves them \<open>undefined\<close>.\<close>

definition segment ::
  "('seg, 'ecc, 'e, 't) qrcode_imports \<Rightarrow> QrCodeGenerateData \<Rightarrow> 'seg list option" where
  "segment q dat =
     (case dat of
        Str s \<Rightarrow> Some (makeSegments q s)
      | Arr a \<Rightarrow> Some [makeBytes q a]
      | Other t \<Rightarrow> None)"

text \<open>The statement \<open>result.data = result.data.map(row => row.map(mod => !mod))\<close>.\<close>

definition invert_data :: "'t QrCodeGenerateResult \<Rightarrow> 't QrCodeGenerateResult" where
  "invert_data result = result\<lparr>data := map (map Not) (data result)\<rparr>"

text \<open>The object literal that \<open>encode\<close> builds from the generator's output.\<close>

definition to_result :: "'t QrCode \<Rightarrow> 't QrCodeGenerateResult" where
  "to_result qr =
     \<lparr>version = qr_version qr, maskPattern = mask qr, size_r = qr_size qr,
      data = modules qr, types = qr_types qr\<rparr>"

definition encode ::
  "('seg, 'ecc, 'e, 't) qrcode_imports \<Rightarrow> QrCodeGenerateData \<Rightarrow> ('e, 't) QrCodeGenerateOptions
     \<Rightarrow> 'e error + 't QrCodeGenerateResult" where
  "encode q dat options =
     (case segment q dat of
        None \<Rightarrow> Inl (UnsupportedInputType (typeof dat))
      | Some seg \<Rightarrow>
          (case encodeSegments q seg
                  (EccMap q (dflt (ascii ''L'') (ecc options)))
                  (dflt 1 (minVersion options))
                  (dflt 40 (maxVersion options))
                  (dflt (- 1) (maskPattern_opt options))
                  (dflt False (boostEcc options)) of
             Inl e \<Rightarrow> Inl (EncodingFailed e)
           | Inr qr \<Rightarrow>
               let result = addBorder (Border q) (to_result qr) (dflt 1 (border options));
                   result = (if invert options = Some True then invert_data result
                             else result)
               in (case onEncoded options of
                     None \<Rightarrow> Inr result
                   | Some callback \<Rightarrow>
                       (case callback result of
                          Inl e \<Rightarrow> Inl (CallbackFailed e)
                        | Inr result' \<Rightarrow> Inr result'))))"

text \<open>
  \<open>getDataAt\<close>: both coordinates are compared with \<open>data.length\<close>. Past the guard the
  row \<open>data[y]\<close> exists; reading it at \<open>x\<close> gives \<open>undefined\<close> (\<open>None\<close>) when the row
  is shorter.
\<close>

definition getDataAt :: "bool list list \<Rightarrow> int \<Rightarrow> int \<Rightarrow> bool \<Rightarrow> bool option" where
  "getDataAt d x y defaults =
     (if x < 0 \<or> y < 0 \<or> x \<ge> int (length d) \<or> y \<ge> int (length d) then Some defaults
      else index (d ! nat y) (nat x))"


section \<open>render.ts\<close>

definition renderUnicode ::
  "('seg, 'ecc, 'e, 't) qrcode_imports \<Rightarrow> QrCodeGenerateData \<Rightarrow> ('e, 't) QrCodeGenerateOptions
     \<Rightarrow> 'e error + jstring" where
  "renderUnicode q dat options =
     (let whiteChar' = dflt [0x2588] (whiteChar options);
          blackChar' = dflt [0x2591] (blackChar options)
      in case encode q dat options of
           Inl e \<Rightarrow> Inl e
         | Inr result \<Rightarrow>
             Inr (join [10]
                   (map (\<lambda>row. join [] (map (\<lambda>m. if m then blackChar' else whiteChar') row))
                     (data result))))"

text \<open>
  The two literals of \<open>renderANSI\<close>: ESC \<open>[40m\<close>, U+3000, ESC \<open>[0m\<close> for a dark module
  and ESC \<open>[47m\<close>, U+3000, ESC \<open>[0m\<close> for a light one.
\<close>

definition ansi_black :: jstring where
  "ansi_black = [0x1B] @ ascii ''[40m'' @ [0x3000] @ [0x1B] @ ascii ''[0m''"

definition ansi_white :: jstring where
  "ansi_white = [0x1B] @ ascii ''[47m'' @ [0x3000] @ [0x1B] @ ascii ''[0m''"

definition renderANSI ::
  "('seg, 'ecc, 'e, 't) qrcode_imports \<Rightarrow> QrCodeGenerateData \<Rightarrow> ('e, 't) QrCodeGenerateOptions
     \<Rightarrow> 'e error + jstring" where
  "renderANSI q dat options =
     renderUnicode q dat (options\<lparr>blackChar := Some ansi_black, whiteChar := Some ansi_white\<rparr>)"

text \<open>
  The palette of \<open>renderUnicodeCompact\<close> and its chain of comparisons; \<open>WHITE\<close> is
  \<open>false\<close> and \<open>BLACK\<close> is \<open>true\<close>. A probe that is \<open>undefined\<close> equals neither.
\<close>

definition compact_glyph :: "bool option \<Rightarrow> bool option \<Rightarrow> jstring" where
  "compact_glyph upper lower =
     (if upper = Some False \<and> lower = Some False then [0x2588]
      else if upper = Some False \<and> lower = Some True then [0x2580]
      else if upper = Some True \<and> lower = Some False then [0x2584]
      else [32])"

text \<open>The inner loop over the columns: the probe is \<open>getDataAt(result.data, x, y, true)\<close>.\<close>

definition compact_line :: "bool list list \<Rightarrow> int \<Rightarrow> int \<Rightarrow> jstring" where
  "compact_line d n row =
     concat (map (\<lambda>col. compact_glyph (getDataAt d (int col) row True)
                                      (getDataAt d (int col) (row + 1) True))
               [0..<nat n])"

text \<open>The outer loop \<open>for (row = 0; row < result.size; row += 2)\<close>, from \<open>row\<close> on.\<close>

function compact_lines :: "bool list list \<Rightarrow> int \<Rightarrow> int \<Rightarrow> jstring list" where
  "compact_lines d n row =
     (if row < n then compact_line d n row # compact_lines d n (row + 2) else [])"
  by pat_completeness auto
termination
  by (relation "measure (\<lambda>(d, n, row). nat (n - row))") auto

declare compact_lines.simps [simp del]

definition renderUnicodeCompact ::
  "('seg, 'ecc, 'e, 't) qrcode_imports \<Rightarrow> QrCodeGenerateData \<Rightarrow> ('e, 't) QrCodeGenerateOptions
     \<Rightarrow> 'e error + jstring" where
  "renderUnicodeCompact q dat options =
     (case encode q dat options of
        Inl e \<Rightarrow> Inl e
      | Inr result \<Rightarrow> Inr (join [10] (compact_lines (data result) (size_r result) 0)))"

section \<open>svg.ts\<close>

text \<open>The template \<open>M${x},${y}h${pixelSize}v${pixelSize}h-${pixelSize}z\<close>.\<close>

definition svg_square :: "int \<Rightarrow> int \<Rightarrow> int \<Rightarrow> jstring option" where
  "svg_square x y p =
     (case num_str x of
        None \<Rightarrow> None
      | Some xs \<Rightarrow>
          (case num_str y of
             None \<Rightarrow> None
           | Some ys \<Rightarrow>
               (case num_str p of
                  None \<Rightarrow> None
                | Some ps \<Rightarrow>
                    Some (ascii ''M'' @ xs @ ascii '','' @ ys @ ascii ''h'' @ ps @
                          ascii ''v'' @ ps @ ascii ''h-'' @ ps @ ascii ''z''))))"

text \<open>
  The two loops of \<open>renderSVG\<close> over \<open>row\<close> and \<open>col\<close> below \<open>result.size\<close>, pushing
  onto \<open>pathes\<close>. Reading \<open>result.data[row][col]\<close> throws when the row does not
  exist, and is \<open>undefined\<close>, which is not truthy, when the row is too short. The
  result is \<open>None\<close> when a number to print is outside the model.
\<close>

primrec svg_cols ::
  "bool list list \<Rightarrow> int \<Rightarrow> nat \<Rightarrow> nat list \<Rightarrow> jstring list
     \<Rightarrow> ('e error + jstring list) option" where
  "svg_cols d p row [] pathes = Some (Inr pathes)"
| "svg_cols d p row (col # cols) pathes =
     (case index d row of
        None \<Rightarrow> Some (Inl TypeError)
      | Some r \<Rightarrow>
          if index r col = Some True
          then (case svg_square (int col * p) (int row * p) p of
                  None \<Rightarrow> None
                | Some square \<Rightarrow> svg_cols d p row cols (pathes @ [square]))
          else svg_cols d p row cols pathes)"

primrec svg_rows ::
  "bool list list \<Rightarrow> int \<Rightarrow> nat \<Rightarrow> nat list \<Rightarrow> jstring list
     \<Rightarrow> ('e error + jstring list) option" where
  "svg_rows d p n [] pathes = Some (Inr pathes)"
| "svg_rows d p n (row # rows) pathes =
     (case svg_cols d p row [0..<n] pathes of
        None \<Rightarrow> None
      | Some (Inl e) \<Rightarrow> Some (Inl e)
      | Some (Inr pathes') \<Rightarrow> svg_rows d p n rows pathes')"

definition renderSVG ::
  "('seg, 'ecc, 'e, 't) qrcode_imports \<Rightarrow> QrCodeGenerateData \<Rightarrow> ('e, 't) QrCodeGenerateOptions
     \<Rightarrow> ('e error + jstring) option" where
  \<open>renderSVG q dat options =
     (case encode q dat options of
        Inl e \<Rightarrow> Some (Inl e)
      | Inr result \<Rightarrow>
          let pixelSize' = dflt 10 (pixelSize options);
              whiteColor' = dflt (ascii ''white'') (whiteColor options);
              blackColor' = dflt (ascii ''black'') (blackColor options);
              height = size_r result * pixelSize';
              width = size_r result * pixelSize'
          in case num_str width of
               None \<Rightarrow> None
             | Some width' \<Rightarrow>
                 (case num_str height of
                    None \<Rightarrow> None
                  | Some height' \<Rightarrow>
                      let svg = ascii ''<svg xmlns="http://www.w3.org/2000/svg" viewBox="0 0 '' @
                                width' @ ascii '' '' @ height' @ ascii ''">''
                      in case svg_rows (data result) pixelSize' (nat (size_r result))
                                [0..<nat (size_r result)] [] of
                           None \<Rightarrow> None
                         | Some (Inl e) \<Rightarrow> Some (Inl e)
                         | Some (Inr pathes) \<Rightarrow>
                             Some (Inr (svg @
                               ascii ''<rect fill="'' @ whiteColor' @ ascii ''" width="'' @
                                 width' @ ascii ''" height="'' @ height' @ ascii ''"/>'' @
                               ascii ''<path fill="'' @ blackColor' @ ascii ''" d="'' @
                                 join [] pathes @ ascii ''"/>'' @
                               ascii ''</svg>''))))\<close>

section \<open>The invariant of a generation result\<close>

definition wf_result :: "'t QrCodeGenerateResult \<Rightarrow> bool" where
  "wf_result r =
     (0 \<le> size_r r \<and>
      length (data r) = nat (size_r r) \<and> list_all (\<lambda>row. length row = nat (size_r r)) (data r) \<and>
      length (types r) = nat (size_r r) \<and> list_all (\<lambda>row. length row = nat (size_r r)) (types r))"

definition square :: "'a list list \<Rightarrow> bool" where
  "square g = list_all (\<lambda>row. length row = length g) g"

section \<open>Notions the properties are stated with\<close>

text \<open>A grid with \<open>k\<close> cells of \<open>v\<close> added on every side, the added rows of length \<open>m\<close>.\<close>

definition bordered :: "nat \<Rightarrow> nat \<Rightarrow> 'a \<Rightarrow> 'a list list \<Rightarrow> 'a list list" where
  "bordered k m v g = unshift_push k (replicate m v) (map (unshift_push k v) g)"

text \<open>\<open>String.prototype.split\<close> at a separator of one code unit.\<close>

fun split :: "'a \<Rightarrow> 'a list \<Rightarrow> 'a list list" where
  "split sep [] = [[]]"
| "split sep (c # cs) =
     (if c = sep then [] # split sep cs
      else (c # hd (split sep cs)) # tl (split sep cs))"

text \<open>The number of places of a string where a pattern starts.\<close>

fun occurrences :: "'a list \<Rightarrow> 'a list \<Rightarrow> nat" where
  "occurrences pat [] = (if pat = [] then 1 else 0)"
| "occurrences pat (c # cs) =
     (if take (length pat) (c # cs) = pat then 1 else 0) + occurrences pat cs"

text \<open>
  The commands of SVG path data are its letters; numbers, signs and commas are their
  arguments.
\<close>

definition is_path_command :: "nat \<Rightarrow> bool" where
  "is_path_command c = (c \<in> set (ascii ''MmZzLlHhVvCcSsQqTtAa''))"

definition path_commands :: "jstring \<Rightarrow> nat" where
  "path_commands s = length (filter is_path_command s)"

definition count_dark :: "bool list list \<Rightarrow> nat" where
  "count_dark d = length (filter id (concat d))"

text \<open>
  The path data the specification describes: a square for each dark cell, row by row,
  at \<open>(col \<times> pixelSize, row \<times> pixelSize)\<close>, drawn by a move, three relative lines and
  a close.
\<close>

definition square_path :: "int \<Rightarrow> int \<Rightarrow> int \<Rightarrow> jstring" where
  "square_path x y p =
     ascii ''M'' @ decimal x @ ascii '','' @ decimal y @ ascii ''h'' @ decimal p @
     ascii ''v'' @ decimal p @ ascii ''h-'' @ decimal p @ ascii ''z''"

definition dark_cells :: "bool list list \<Rightarrow> (nat \<times> nat) list" where
  "dark_cells d =
     concat (map (\<lambda>row. map (\<lambda>col. (row, col)) (filter (\<lambda>col. d ! row ! col) [0..<length (d ! row)]))
               [0..<length d])"

definition svg_path_d :: "bool list list \<Rightarrow> int \<Rightarrow> jstring" where
  "svg_path_d d p =
     concat (map (\<lambda>(row, col). square_path (int col * p) (int row * p) p) (dark_cells d))"

text \<open>
  The result of \<open>encode\<close> before the callback sees it: the generator's matrix with its
  border, inverted when \<open>invert\<close> is set.
\<close>

definition post_processed ::
  "('seg, 'ecc, 'e, 't) qrcode_imports \<Rightarrow> 't QrCode \<Rightarrow> ('e, 't) QrCodeGenerateOptions
     \<Rightarrow> 't QrCodeGenerateResult" where
  "post_processed q qr opts =
     (if invert opts = Some True
      then invert_data (addBorder (Border q) (to_result qr) (dflt 1 (border opts)))
      else addBorder (Border q) (to_result qr) (dflt 1 (border opts)))"

text \<open>A callback that leaves the result as it finds it, whenever it returns.\<close>

definition observer :: "('t QrCodeGenerateResult \<Rightarrow> 'e + 't QrCodeGenerateResult) \<Rightarrow> bool" where
  "observer callback = (\<forall>x y. callback x = Inr y \<longrightarrow> y = x)"

section \<open>A small generator to run the code on\<close>

text \<open>
  Modelled from the spec: the table \<open>EccMap\<close> of module \<open>./qrcode\<close>, which is imported
  and not part of the code; it maps the symbols L, M, Q, H to the generator's levels (here
  numbered). Only its own four keys are modelled; the names every object inherits are
  left \<open>undefined\<close> here.
\<close>

definition EccMap_table :: "jstring \<Rightarrow> nat option" where
  "EccMap_table s =
     (if s = ascii ''L'' then Some 0 else if s = ascii ''M'' then Some 1
      else if s = ascii ''Q'' then Some 2 else if s = ascii ''H'' then Some 3 else None)"

text \<open>
  A generator that returns one fixed matrix of three rows, the last one all dark, and
  throws when the level it is given is \<open>undefined\<close>.
\<close>

definition sample_qr :: "int QrCode" where
  "sample_qr =
     \<lparr>qr_version = 1, mask = 0, qr_size = 3,
      modules = [[True, False, True], [False, True, False], [True, True, True]],
      qr_types = [[2, 0, 2], [0, 0, 0], [2, 1, 2]]\<rparr>"

definition sample_imports :: "(jstring, nat, jstring, int) qrcode_imports" where
  "sample_imports =
     \<lparr>EccMap = EccMap_table,
      makeSegments = (\<lambda>s. [s]),
      makeBytes = map nat,
      encodeSegments = (\<lambda>segs ecl minV maxV msk boost.
         case ecl of None \<Rightarrow> Inl (ascii ''ecl is undefined'') | Some l \<Rightarrow> Inr sample_qr),
      Border = - 1\<rparr>"

definition no_options :: "(jstring, int) QrCodeGenerateOptions" where
  "no_options =
     \<lparr>ecc = None, boostEcc = None, minVersion = None, maxVersion = None,
      maskPattern_opt = None, border = None, invert = None, onEncoded = None,
      whiteChar = None, blackChar = None, pixelSize = None, whiteColor = None,
      blackColor = None\<rparr>"

section \<open>Coordinate accessor\<close>

lemma index_in_range: "i < length xs \<Longrightarrow> index xs i = Some (xs ! i)"
  by (simp add: index_def)

text \<open>
  C9. On a square boolean grid the accessor returns the default for a coordinate
  outside the grid and the cell \<open>grid[y][x]\<close> otherwise. It is a total function of its
  arguments: it always returns a boolean, raises nothing and changes nothing.
\<close>

theorem getDataAt_square:
  assumes "square g"
  shows "getDataAt g x y d =
           Some (if x < 0 \<or> y < 0 \<or> x \<ge> int (length g) \<or> y \<ge> int (length g) then d
                 else g ! nat y ! nat x)"
proof (cases "x < 0 \<or> y < 0 \<or> x \<ge> int (length g) \<or> y \<ge> int (length g)")
  case True
  then show ?thesis by (simp add: getDataAt_def)
next
  case False
  then have y: "nat y < length g" and x: "nat x < length g" by auto
  from assms y have "length (g ! nat y) = length g"
    by (simp add: square_def list_all_length)
  with x False show ?thesis
    by (simp add: getDataAt_def index_in_range)
qed

theorem getDataAt_square_witness:
  "square [[True, False], [False, True]] \<and>
   getDataAt [[True, False], [False, True]] 1 1 False = Some True \<and>
   getDataAt [[True, False], [False, True]] 2 0 True = Some True \<and>
   getDataAt [[True, False], [False, True]] 0 (- 1) False = Some False"
  using getDataAt_square [of "[[True, False], [False, True]]" 1 1 False]
    getDataAt_square [of "[[True, False], [False, True]]" 2 0 True]
    getDataAt_square [of "[[True, False], [False, True]]" 0 "- 1" False]
  by (simp add: square_def)

text \<open>
  C10. The bound of both coordinates is the number of rows. On a grid with more columns
  than rows, a column index that exists in row \<open>y\<close> but is not below the number of rows
  gives the default, not the cell.
\<close>

theorem getDataAt_bound_is_rows:
  assumes "0 \<le> y" and "y < int (length g)"
    and "int (length g) \<le> x" and "x < int (length (g ! nat y))"
  shows "getDataAt g x y d = Some d"
  using assms by (simp add: getDataAt_def)

theorem getDataAt_bound_is_rows_witness:
  "getDataAt [[False, False, True]] 2 0 False = Some False \<and>
   [[False, False, True]] ! 0 ! 2 = True"
  using getDataAt_bound_is_rows [of 0 "[[False, False, True]]" 2 False]
  by simp

section \<open>Border\<close>

lemma unshift_push_replicate: "unshift_push n v a = replicate n v @ a @ replicate n v"
proof (induction n arbitrary: a)
  case 0
  then show ?case by simp
next
  case (Suc n)
  have "replicate n v @ (v # a @ [v]) @ replicate n v = replicate (Suc n) v @ a @ replicate (Suc n) v"
    by (simp add: replicate_append_same)
  with Suc show ?case by simp
qed

lemma padded_outer:
  assumes "length xs = n" and "i < k \<or> k + n \<le> i" and "i < n + 2 * k"
  shows "(replicate k v @ xs @ replicate k v) ! i = v"
  using assms by (auto simp: nth_append)

lemma padded_inner:
  assumes "length xs = n" and "k \<le> i" and "i < k + n"
  shows "(replicate k v @ xs @ replicate k v) ! i = xs ! (i - k)"
  using assms by (auto simp: nth_append)

lemma bordered_length: "length (bordered k m v g) = length g + 2 * k"
  by (simp add: bordered_def unshift_push_replicate)

lemma bordered_rows:
  assumes "list_all (\<lambda>row. length row = n) g"
  shows "list_all (\<lambda>row. length row = n + 2 * k) (bordered k (n + 2 * k) v g)"
  using assms by (auto simp: bordered_def unshift_push_replicate list_all_iff)

lemma bordered_ring:
  assumes len: "length g = n" and rows: "list_all (\<lambda>row. length row = n) g"
    and y: "y < n + 2 * k" and x: "x < n + 2 * k"
    and ring: "y < k \<or> k + n \<le> y \<or> x < k \<or> k + n \<le> x"
  shows "bordered k (n + 2 * k) v g ! y ! x = v"
proof (cases "y < k \<or> k + n \<le> y")
  case True
  with len y have "bordered k (n + 2 * k) v g ! y = replicate (n + 2 * k) v"
    unfolding bordered_def unshift_push_replicate
    by (intro padded_outer) auto
  with x show ?thesis by simp
next
  case False
  then have ky: "k \<le> y" and yn: "y < k + n" by auto
  with len have row: "bordered k (n + 2 * k) v g ! y = replicate k v @ g ! (y - k) @ replicate k v"
    unfolding bordered_def unshift_push_replicate
    by (subst padded_inner [where n = n]) (auto simp: unshift_push_replicate)
  from ky yn len have "y - k < length g" by auto
  with rows have "length (g ! (y - k)) = n" by (simp add: list_all_length)
  moreover from False ring have "x < k \<or> k + n \<le> x" by auto
  ultimately show ?thesis using x unfolding row by (intro padded_outer) auto
qed

lemma addBorder_unfold:
  assumes "0 < bw" and "0 \<le> size_r r"
  shows "addBorder b r bw =
           r\<lparr>size_r := size_r r + 2 * bw,
             data := bordered (nat bw) (nat (size_r r) + 2 * nat bw) False (data r),
             types := bordered (nat bw) (nat (size_r r) + 2 * nat bw) b (types r)\<rparr>"
proof -
  from assms have "nat (size_r r + bw * 2) = nat (size_r r) + 2 * nat bw" by (simp add: nat_add_distrib)
  with assms show ?thesis
    by (simp add: addBorder_def Let_def array_from_def bordered_def mult.commute)
qed

lemma addBorder_wf:
  assumes wf: "wf_result r" and bw: "0 \<le> bw"
  shows "wf_result (addBorder b r bw)"
proof (cases "bw = 0")
  case True
  with wf show ?thesis by (simp add: addBorder_def)
next
  case False
  with bw have pos: "0 < bw" by simp
  let ?n = "nat (size_r r)" and ?k = "nat bw"
  from wf have sz: "0 \<le> size_r r" and ld: "length (data r) = ?n"
    and rd: "list_all (\<lambda>row. length row = ?n) (data r)"
    and lt: "length (types r) = ?n"
    and rt: "list_all (\<lambda>row. length row = ?n) (types r)"
    by (simp_all add: wf_result_def)
  from pos sz have n': "nat (size_r r + 2 * bw) = ?n + 2 * ?k" by (simp add: nat_add_distrib)
  show ?thesis
    using pos sz ld lt bordered_rows [OF rd, of ?k False] bordered_rows [OF rt, of ?k b]
    by (simp add: addBorder_unfold [OF pos sz] wf_result_def n' bordered_length)
qed

text \<open>
  C4. With border width 0, \<open>addBorder\<close> returns its input. With a border width
  \<open>bw > 0\<close>, on a result that satisfies the invariant, the new size is the old size
  plus \<open>2 \<times> bw\<close>, the result satisfies the invariant again (both grids are squares
  of the new size, so their dimensions agree), and every cell of the added ring is light
  in the module grid and tagged \<open>Border\<close> in the type grid.
\<close>

theorem addBorder_ring:
  assumes "wf_result r" and "0 \<le> bw"
  shows "addBorder b r 0 = r \<and>
     (0 < bw \<longrightarrow>
        size_r (addBorder b r bw) = size_r r + 2 * bw \<and>
        wf_result (addBorder b r bw) \<and>
        map length (data (addBorder b r bw)) = map length (types (addBorder b r bw)) \<and>
        (\<forall>y x. y < nat (size_r r + 2 * bw) \<and> x < nat (size_r r + 2 * bw) \<and>
               (y < nat bw \<or> nat bw + nat (size_r r) \<le> y \<or>
                x < nat bw \<or> nat bw + nat (size_r r) \<le> x) \<longrightarrow>
               data (addBorder b r bw) ! y ! x = False \<and>
               types (addBorder b r bw) ! y ! x = b))"
proof (intro conjI impI allI)
  show "addBorder b r 0 = r" by (simp add: addBorder_def)
next
  assume pos: "0 < bw"
  let ?n = "nat (size_r r)" and ?k = "nat bw"
  from assms have sz: "0 \<le> size_r r" and ld: "length (data r) = ?n"
    and rd: "list_all (\<lambda>row. length row = ?n) (data r)"
    and lt: "length (types r) = ?n"
    and rt: "list_all (\<lambda>row. length row = ?n) (types r)"
    by (simp_all add: wf_result_def)
  note ab = addBorder_unfold [OF pos sz, of b]
  from pos sz have n': "nat (size_r r + 2 * bw) = ?n + 2 * ?k" by (simp add: nat_add_distrib)
  show "size_r (addBorder b r bw) = size_r r + 2 * bw" by (simp add: ab)
  show wf: "wf_result (addBorder b r bw)"
    using assms by (rule addBorder_wf)
  show "map length (data (addBorder b r bw)) = map length (types (addBorder b r bw))"
  proof (rule nth_equalityI)
    show "length (map length (data (addBorder b r bw))) = length (map length (types (addBorder b r bw)))"
      using wf by (simp add: wf_result_def)
  next
    fix i assume "i < length (map length (data (addBorder b r bw)))"
    with wf show "map length (data (addBorder b r bw)) ! i = map length (types (addBorder b r bw)) ! i"
      by (simp add: wf_result_def list_all_length)
  qed
  fix y x
  assume c: "y < nat (size_r r + 2 * bw) \<and> x < nat (size_r r + 2 * bw) \<and>
               (y < nat bw \<or> nat bw + nat (size_r r) \<le> y \<or>
                x < nat bw \<or> nat bw + nat (size_r r) \<le> x)"
  then have y: "y < ?n + 2 * ?k" and x: "x < ?n + 2 * ?k"
    and ring: "y < ?k \<or> ?k + ?n \<le> y \<or> x < ?k \<or> ?k + ?n \<le> x"
    by (simp_all add: n')
  show "data (addBorder b r bw) ! y ! x = False"
    using bordered_ring [OF ld rd y x ring, of False] by (simp add: ab)
  show "types (addBorder b r bw) ! y ! x = b"
    using bordered_ring [OF lt rt y x ring, of b] by (simp add: ab)
qed

theorem addBorder_ring_witness:
  "wf_result (to_result sample_qr) \<and>
   addBorder (- 1) (to_result sample_qr) 0 = to_result sample_qr \<and>
   size_r (addBorder (- 1) (to_result sample_qr) 1) = 5 \<and>
   wf_result (addBorder (- 1) (to_result sample_qr) 1) \<and>
   data (addBorder (- 1) (to_result sample_qr) 1) ! 4 ! 2 = False \<and>
   types (addBorder (- 1) (to_result sample_qr) 1) ! 1 ! 0 = - 1"
proof -
  have wf: "wf_result (to_result sample_qr)"
    by (simp add: wf_result_def to_result_def sample_qr_def)
  have sz: "size_r (to_result sample_qr) = 3"
    by (simp add: to_result_def sample_qr_def)
  note t = addBorder_ring [OF wf zero_le_one, of "- 1", unfolded sz]
  from t have ring: "\<And>y x. y < 5 \<Longrightarrow> x < 5 \<Longrightarrow> y < 1 \<or> 4 \<le> y \<or> x < 1 \<or> 4 \<le> x \<Longrightarrow>
      data (addBorder (- 1) (to_result sample_qr) 1) ! y ! x = False \<and>
      types (addBorder (- 1) (to_result sample_qr) 1) ! y ! x = - 1"
    by simp
  from t wf ring [of 4 2] ring [of 1 0] show ?thesis by simp
qed

section \<open>Inversion\<close>

text \<open>
  C5. Inverting twice gives the result back: negating every module of the module grid
  and negating every module again yields the original grid, and nothing else changes.
\<close>

theorem invert_twice: "invert_data (invert_data r) = r"
  by (simp add: invert_data_def comp_def)

section \<open>The orchestrator\<close>

lemma encode_Inr:
  assumes enc: "encode q dat opts = Inr r"
    and obs: "\<And>callback. onEncoded opts = Some callback \<Longrightarrow> observer callback"
  shows "\<exists>seg qr. segment q dat = Some seg \<and>
           encodeSegments q seg (EccMap q (dflt (ascii ''L'') (ecc opts)))
             (dflt 1 (minVersion opts)) (dflt 40 (maxVersion opts))
             (dflt (- 1) (maskPattern_opt opts)) (dflt False (boostEcc opts)) = Inr qr \<and>
           r = post_processed q qr opts"
proof (cases "onEncoded opts")
  case None
  with enc show ?thesis
    by (auto simp: encode_def Let_def post_processed_def split: option.splits sum.splits if_splits)
next
  case (Some callback)
  with obs have "\<And>x y. callback x = Inr y \<Longrightarrow> y = x" by (simp add: observer_def)
  with enc Some show ?thesis
    by (fastforce simp: encode_def Let_def post_processed_def split: option.splits sum.splits if_splits)
qed

text \<open>
  The invariant of the result of \<open>encode\<close> comes from the generator: when every matrix
  the generator returns is a square of its size, with a type grid of the same shape, the
  border width is not negative and the callback, if any, is an observer, the result
  satisfies the invariant.
\<close>

lemma invert_data_wf: "wf_result (invert_data x) = wf_result x"
  by (simp add: invert_data_def wf_result_def list_all_iff)

lemma encode_wf:
  assumes enc: "encode q dat opts = Inr r"
    and obs: "\<And>callback. onEncoded opts = Some callback \<Longrightarrow> observer callback"
    and gen: "\<And>seg ecl minV maxV msk boost qr.
                encodeSegments q seg ecl minV maxV msk boost = Inr qr \<Longrightarrow> wf_result (to_result qr)"
    and bw: "0 \<le> dflt 1 (border opts)"
  shows "wf_result r"
proof -
  from encode_Inr [OF enc obs] obtain seg qr where
    call: "encodeSegments q seg (EccMap q (dflt (ascii ''L'') (ecc opts)))
             (dflt 1 (minVersion opts)) (dflt 40 (maxVersion opts))
             (dflt (- 1) (maskPattern_opt opts)) (dflt False (boostEcc opts)) = Inr qr"
    and r: "r = post_processed q qr opts"
    by blast
  from gen [OF call] bw have "wf_result (addBorder (Border q) (to_result qr) (dflt 1 (border opts)))"
    by (rule addBorder_wf)
  then show ?thesis by (simp add: r post_processed_def invert_data_wf)
qed

lemma addBorder_first_row:
  assumes "bw \<noteq> 0"
  shows "size_r (addBorder b x bw) = size_r x + bw * 2"
    and "types (invert_data (addBorder b x bw)) = types (addBorder b x bw)"
    and "0 < bw \<Longrightarrow> data (addBorder b x bw) \<noteq> []"
    and "0 < bw \<Longrightarrow> data (addBorder b x bw) ! 0 = replicate (nat (size_r x + bw * 2)) False"
  using assms
  by (auto simp: addBorder_def Let_def invert_data_def unshift_push_replicate array_from_def nth_append)

text \<open>
  C6. When \<open>encode\<close> returns with \<open>invert\<close> set and the callback, if there is one, is
  an observer, the generator returned a matrix and the module grid of the result is the
  negation, cell by cell, of the module grid after border addition, while the type grid and
  the size are those after border addition; this holds for every border width. When
  moreover the border width is above 0 and the result satisfies the invariant, the corner
  module \<open>data[0][0]\<close> exists and is \<open>true\<close>.
\<close>

theorem encode_invert_after_border:
  assumes enc: "encode q dat opts = Inr r" and inv: "invert opts = Some True"
    and obs: "\<And>callback. onEncoded opts = Some callback \<Longrightarrow> observer callback"
  shows "(\<exists>seg qr. segment q dat = Some seg \<and>
           encodeSegments q seg (EccMap q (dflt (ascii ''L'') (ecc opts)))
             (dflt 1 (minVersion opts)) (dflt 40 (maxVersion opts))
             (dflt (- 1) (maskPattern_opt opts)) (dflt False (boostEcc opts)) = Inr qr \<and>
           data r = map (map Not) (data (addBorder (Border q) (to_result qr) (dflt 1 (border opts)))) \<and>
           types r = types (addBorder (Border q) (to_result qr) (dflt 1 (border opts))) \<and>
           size_r r = size_r (addBorder (Border q) (to_result qr) (dflt 1 (border opts)))) \<and>
         (wf_result r \<and> 0 < dflt 1 (border opts) \<longrightarrow>
            data r \<noteq> [] \<and> data r ! 0 \<noteq> [] \<and> data r ! 0 ! 0 = True)"
proof -
  let ?bw = "dflt 1 (border opts)"
  from encode_Inr [OF enc obs] inv obtain seg qr where seg: "segment q dat = Some seg"
    and call: "encodeSegments q seg (EccMap q (dflt (ascii ''L'') (ecc opts)))
             (dflt 1 (minVersion opts)) (dflt 40 (maxVersion opts))
             (dflt (- 1) (maskPattern_opt opts)) (dflt False (boostEcc opts)) = Inr qr"
    and r: "r = invert_data (addBorder (Border q) (to_result qr) ?bw)"
    by (auto simp: post_processed_def)
  let ?a = "addBorder (Border q) (to_result qr) ?bw"
  have d: "data r = map (map Not) (data ?a)" and s: "size_r r = size_r ?a"
    and t: "types r = types ?a"
    by (simp_all add: r invert_data_def)
  have corner: "data r \<noteq> [] \<and> data r ! 0 \<noteq> [] \<and> data r ! 0 ! 0 = True"
    if wf: "wf_result r" and bw: "0 < ?bw"
  proof -
    from bw have nz: "?bw \<noteq> 0" by simp
    from addBorder_first_row(3) [OF nz bw] have ne: "data ?a \<noteq> []" .
    with d have ne': "data r \<noteq> []" by simp
    have row0: "data r ! 0 = replicate (nat (size_r r)) True"
      using ne addBorder_first_row(4) [OF nz bw, of "Border q" "to_result qr"]
        addBorder_first_row(1) [OF nz, of "Border q" "to_result qr"]
      by (simp add: d s nth_map map_replicate)
    from wf have "length (data r) = nat (size_r r)" by (simp add: wf_result_def)
    with ne' have "0 < nat (size_r r)" by (cases "data r") auto
    with row0 ne' show ?thesis by auto
  qed
  from seg call d t s corner show ?thesis by blast
qed

lemma sample_encode_invert:
  "encode sample_imports (Str []) (no_options\<lparr>invert := Some True, onEncoded := Some Inr\<rparr>) =
     Inr \<lparr>version = 1, maskPattern = 0, size_r = 5,
          data = [[True, True, True, True, True],
                  [True, False, True, False, True],
                  [True, True, False, True, True],
                  [True, False, False, False, True],
                  [True, True, True, True, True]],
          types = [[- 1, - 1, - 1, - 1, - 1],
                   [- 1, 2, 0, 2, - 1],
                   [- 1, 0, 0, 0, - 1],
                   [- 1, 2, 1, 2, - 1],
                   [- 1, - 1, - 1, - 1, - 1]]\<rparr>"
  by code_simp

theorem encode_invert_after_border_witness:
  "encode sample_imports (Str []) (no_options\<lparr>invert := Some True, onEncoded := Some Inr\<rparr>) =
     Inr \<lparr>version = 1, maskPattern = 0, size_r = 5,
          data = [[True, True, True, True, True],
                  [True, False, True, False, True],
                  [True, True, False, True, True],
                  [True, False, False, False, True],
                  [True, True, True, True, True]],
          types = [[- 1, - 1, - 1, - 1, - 1],
                   [- 1, 2, 0, 2, - 1],
                   [- 1, 0, 0, 0, - 1],
                   [- 1, 2, 1, 2, - 1],
                   [- 1, - 1, - 1, - 1, - 1]]\<rparr> \<and>
   observer (Inr :: int QrCodeGenerateResult \<Rightarrow> jstring + int QrCodeGenerateResult) \<and>
   [[True, True, True, True, True],
    [True, False, True, False, True],
    [True, True, False, True, True],
    [True, False, False, False, True],
    [True, True, True, True, True]] ! 0 ! 0 = True"
proof -
  let ?opts = "no_options\<lparr>invert := Some True, onEncoded := Some Inr\<rparr>"
  have inv: "invert ?opts = Some True" by simp
  have watch: "observer (Inr :: int QrCodeGenerateResult \<Rightarrow> jstring + int QrCodeGenerateResult)"
    by (simp add: observer_def)
  then have obs: "\<And>callback. onEncoded ?opts = Some callback \<Longrightarrow> observer callback" by simp
  have bw: "0 < dflt 1 (border ?opts)" by (simp add: no_options_def dflt_def)
  have wf: "wf_result \<lparr>version = 1, maskPattern = 0, size_r = 5,
          data = [[True, True, True, True, True],
                  [True, False, True, False, True],
                  [True, True, False, True, True],
                  [True, False, False, False, True],
                  [True, True, True, True, True]],
          types = [[- 1, - 1, - 1, - 1, - 1],
                   [- 1, 2, 0, 2, - 1],
                   [- 1, 0, 0, 0, - 1],
                   [- 1, 2, 1, 2, - 1],
                   [- 1, - 1, - 1, - 1, - 1 :: int]]\<rparr>"
    by (simp add: wf_result_def)
  from encode_invert_after_border [OF sample_encode_invert inv obs] wf bw
  have "[[True, True, True, True, True],
    [True, False, True, False, True],
    [True, True, False, True, True],
    [True, False, False, False, True],
    [True, True, True, True, True]] ! 0 ! 0 = True"
    by simp
  with sample_encode_invert watch show ?thesis by simp
qed

lemma encode_never_InvalidEccLevel: "encode q dat opts \<noteq> Inl InvalidEccLevel"
  by (auto simp: encode_def Let_def split: option.splits sum.splits)

text \<open>
  C2, as the code has it. \<open>encode\<close> does not check the level: for a symbol that is
  not one of L, M, Q, H it calls the generator with \<open>EccMap[ecc]\<close>, whatever that read
  gives. What the generator throws, \<open>encode\<close> throws. When the generator returns a
  matrix, \<open>encode\<close> post-processes it; without a callback it returns that result, with a
  callback that returns it returns the result as the callback left it, and what the callback
  throws it throws. \<open>encode\<close> never fails with \<open>InvalidEccLevel\<close>.
\<close>

theorem encode_unrecognized_ecc:
  assumes "ecc opts = Some s"
    and "s \<notin> {ascii ''L'', ascii ''M'', ascii ''Q'', ascii ''H''}"
    and "segment q dat = Some seg"
  shows "encode q dat opts \<noteq> Inl InvalidEccLevel \<and>
     (\<forall>e. encodeSegments q seg (EccMap q s) (dflt 1 (minVersion opts)) (dflt 40 (maxVersion opts))
             (dflt (- 1) (maskPattern_opt opts)) (dflt False (boostEcc opts)) = Inl e \<longrightarrow>
          encode q dat opts = Inl (EncodingFailed e)) \<and>
     (\<forall>qr. encodeSegments q seg (EccMap q s) (dflt 1 (minVersion opts)) (dflt 40 (maxVersion opts))
             (dflt (- 1) (maskPattern_opt opts)) (dflt False (boostEcc opts)) = Inr qr \<longrightarrow>
          (onEncoded opts = None \<longrightarrow> encode q dat opts = Inr (post_processed q qr opts)) \<and>
          (\<forall>callback y. onEncoded opts = Some callback \<and>
               callback (post_processed q qr opts) = Inr y \<longrightarrow>
             encode q dat opts = Inr y) \<and>
          (\<forall>callback e. onEncoded opts = Some callback \<and>
               callback (post_processed q qr opts) = Inl e \<longrightarrow>
             encode q dat opts = Inl (CallbackFailed e)))"
proof -
  let ?call = "encodeSegments q seg (EccMap q s) (dflt 1 (minVersion opts))
      (dflt 40 (maxVersion opts)) (dflt (- 1) (maskPattern_opt opts)) (dflt False (boostEcc opts))"
  from assms(1) have level: "dflt (ascii ''L'') (ecc opts) = s" by (simp add: dflt_def)
  have enc: "encode q dat opts =
      (case ?call of
         Inl e \<Rightarrow> Inl (EncodingFailed e)
       | Inr qr \<Rightarrow>
           (case onEncoded opts of
              None \<Rightarrow> Inr (post_processed q qr opts)
            | Some callback \<Rightarrow>
                (case callback (post_processed q qr opts) of
                   Inl e \<Rightarrow> Inl (CallbackFailed e)
                 | Inr result' \<Rightarrow> Inr result')))"
    by (simp add: encode_def assms(3) level Let_def post_processed_def
        split: sum.splits option.splits)
  show ?thesis
  proof (cases ?call)
    case (Inl e)
    then show ?thesis by (simp add: enc)
  next
    case (Inr qr)
    then show ?thesis by (auto simp: enc split: option.splits sum.splits)
  qed
qed

theorem encode_unrecognized_ecc_witness:
  "ecc (no_options\<lparr>ecc := Some (ascii ''X'')\<rparr>) = Some (ascii ''X'') \<and>
   ascii ''X'' \<notin> {ascii ''L'', ascii ''M'', ascii ''Q'', ascii ''H''} \<and>
   segment sample_imports (Str (ascii ''A'')) = Some [ascii ''A''] \<and>
   EccMap sample_imports (ascii ''X'') = None \<and>
   encode sample_imports (Str (ascii ''A'')) (no_options\<lparr>ecc := Some (ascii ''X'')\<rparr>) =
     Inl (EncodingFailed (ascii ''ecl is undefined''))"
proof -
  let ?opts = "no_options\<lparr>ecc := Some (ascii ''X'')\<rparr>"
  have e: "ecc ?opts = Some (ascii ''X'')" by simp
  have x: "ascii ''X'' \<notin> {ascii ''L'', ascii ''M'', ascii ''Q'', ascii ''H''}"
    by (simp add: ascii_def)
  have undef: "EccMap sample_imports (ascii ''X'') = None"
    by (simp add: sample_imports_def EccMap_table_def ascii_def)
  have seg: "segment sample_imports (Str (ascii ''A'')) = Some [ascii ''A'']"
    by (simp add: segment_def sample_imports_def)
  have thrown: "encodeSegments sample_imports [ascii ''A''] (EccMap sample_imports (ascii ''X''))
      (dflt 1 (minVersion ?opts)) (dflt 40 (maxVersion ?opts)) (dflt (- 1) (maskPattern_opt ?opts))
      (dflt False (boostEcc ?opts)) = Inl (ascii ''ecl is undefined'')"
    by (simp add: undef) (simp add: sample_imports_def)
  from encode_unrecognized_ecc [OF e x seg] thrown
  have "encode sample_imports (Str (ascii ''A'')) ?opts = Inl (EncodingFailed (ascii ''ecl is undefined''))"
    by blast
  with e x undef seg show ?thesis by simp
qed

text \<open>
  The failure for the unknown symbol X is the one thrown inside the generator, not
  \<open>InvalidEccLevel\<close> raised before the call.
\<close>

theorem encode_no_InvalidEccLevel_counterexample:
  "encode sample_imports (Str (ascii ''A'')) (no_options\<lparr>ecc := Some (ascii ''X'')\<rparr>) =
     Inl (EncodingFailed (ascii ''ecl is undefined'')) \<and>
   encode sample_imports (Str (ascii ''A'')) (no_options\<lparr>ecc := Some (ascii ''X'')\<rparr>) \<noteq>
     Inl InvalidEccLevel"
  by (simp add: encode_def sample_imports_def no_options_def segment_def dflt_def
      EccMap_table_def ascii_def)

section \<open>Block renderers\<close>

lemma join_empty_sep: "join [] xs = concat xs"
  by (induction "[] :: 'a list" xs rule: join.induct) simp_all

lemma split_no_sep: "sep \<notin> set l \<Longrightarrow> split sep l = [l]"
  by (induction l) auto

lemma split_append_sep: "sep \<notin> set l \<Longrightarrow> split sep (l @ sep # rest) = l # split sep rest"
  by (induction l) auto

lemma split_join:
  assumes "ls \<noteq> []" and "\<forall>l \<in> set ls. sep \<notin> set l"
  shows "split sep (join [sep] ls) = ls"
  using assms
proof (induction "[sep]" ls rule: join.induct)
  case 1
  then show ?case by simp
next
  case (2 x)
  then show ?case by (simp add: split_no_sep)
next
  case (3 x y ys)
  then show ?case by (simp add: split_append_sep)
qed

lemma last_join:
  assumes "ls \<noteq> []" and "last ls \<noteq> []"
  shows "join sep ls \<noteq> [] \<and> last (join sep ls) = last (last ls)"
  using assms by (induction sep ls rule: join.induct) auto

lemma encode_ignores_chars [simp]:
  "encode q dat (opts\<lparr>blackChar := bc, whiteChar := wc\<rparr>) = encode q dat opts"
  by (simp add: encode_def Let_def split: option.splits sum.splits)

lemma concat_singletons: "concat (map (\<lambda>m. [f m]) row) = map f row"
  by (induction row) simp_all

lemma renderUnicode_out_plain_chars:
  assumes "encode q dat opts = Inr r" and "whiteChar opts = None" and "blackChar opts = None"
  shows "renderUnicode q dat opts =
           Inr (join [10] (map (map (\<lambda>m. if m then 0x2591 else 0x2588)) (data r)))"
proof -
  have "(\<lambda>row. concat (map (\<lambda>m. if m then [0x2591] else [0x2588 :: nat]) row)) =
        map (\<lambda>m. if m then 0x2591 else 0x2588)"
    using concat_singletons [of "\<lambda>m. if m then 0x2591 else (0x2588 :: nat)"]
    by (simp add: fun_eq_iff if_distrib [of "\<lambda>x. [x]"] cong: if_cong)
  with assms show ?thesis
    by (simp add: renderUnicode_def dflt_def join_empty_sep)
qed

text \<open>
  C7. With the default characters, on a result that satisfies the invariant and is not
  empty, \<open>renderUnicode\<close> returns a string whose lines, split at the newline, are the
  rows of the module grid with U+2591 for a dark module and U+2588 for a light one: there
  are exactly \<open>size\<close> lines, each of length \<open>size\<close>, and the string does not end with
  a newline.
\<close>

theorem renderUnicode_default:
  assumes enc: "encode q dat opts = Inr r" and wf: "wf_result r" and pos: "0 < size_r r"
    and wc: "whiteChar opts = None" and bc: "blackChar opts = None"
  shows "\<exists>out. renderUnicode q dat opts = Inr out \<and>
           split 10 out = map (map (\<lambda>m. if m then 0x2591 else 0x2588)) (data r) \<and>
           length (split 10 out) = nat (size_r r) \<and>
           list_all (\<lambda>line. length line = nat (size_r r)) (split 10 out) \<and>
           out \<noteq> [] \<and> last out \<noteq> 10"
proof -
  let ?lines = "map (map (\<lambda>m. if m then 0x2591 else (0x2588 :: nat))) (data r)"
  let ?out = "join [10] ?lines"
  from wf have len: "length (data r) = nat (size_r r)"
    and rows: "list_all (\<lambda>row. length row = nat (size_r r)) (data r)"
    by (simp_all add: wf_result_def)
  from len pos have ne: "?lines \<noteq> []" by auto
  have nonl: "\<forall>l \<in> set ?lines. 10 \<notin> set l" by auto
  have sp: "split 10 ?out = ?lines" by (rule split_join [OF ne nonl])
  from rows have rows': "list_all (\<lambda>line. length line = nat (size_r r)) ?lines"
    by (simp add: list_all_iff)
  from ne have "last ?lines \<in> set ?lines" by (rule last_in_set)
  with rows' pos have lne: "last ?lines \<noteq> []" by (auto simp: list_all_iff)
  then have "last (last ?lines) \<in> set (last ?lines)" by (rule last_in_set)
  with nonl \<open>last ?lines \<in> set ?lines\<close> have "last (last ?lines) \<noteq> 10" by metis
  with last_join [OF ne lne, of "[10]"] have "?out \<noteq> []" and "last ?out \<noteq> 10" by simp_all
  with renderUnicode_out_plain_chars [OF enc wc bc] sp len rows' show ?thesis by simp
qed

text \<open>
  C8. \<open>renderANSI\<close> returns what \<open>renderUnicode\<close> returns for the same options with
  the two characters replaced by the escape sequences ESC[40m U+3000 ESC[0m (dark) and
  ESC[47m U+3000 ESC[0m (light); the characters the caller passed have no effect. Written
  out, every module of the result of \<open>encode\<close> becomes its escape sequence and the rows
  are joined by newlines.
\<close>

theorem renderANSI_overrides:
  "renderANSI q dat opts =
     renderUnicode q dat
       (opts\<lparr>blackChar := Some ([0x1B] @ ascii ''[40m'' @ [0x3000, 0x1B] @ ascii ''[0m''),
             whiteChar := Some ([0x1B] @ ascii ''[47m'' @ [0x3000, 0x1B] @ ascii ''[0m'')\<rparr>) \<and>
   renderANSI q dat (opts\<lparr>blackChar := bc, whiteChar := wc\<rparr>) = renderANSI q dat opts \<and>
   renderANSI q dat opts =
     (case encode q dat opts of
        Inl e \<Rightarrow> Inl e
      | Inr r \<Rightarrow>
          Inr (join [10]
                (map (\<lambda>row. concat (map (\<lambda>m. if m then [0x1B] @ ascii ''[40m'' @ [0x3000, 0x1B] @ ascii ''[0m''
                                               else [0x1B] @ ascii ''[47m'' @ [0x3000, 0x1B] @ ascii ''[0m'') row))
                  (data r))))"
  by (simp add: renderANSI_def renderUnicode_def ansi_black_def ansi_white_def dflt_def
      join_empty_sep split: sum.splits cong: if_cong)

lemma compact_glyph_no_newline: "10 \<notin> set (compact_glyph a b)"
  by (simp add: compact_glyph_def)

lemma compact_line_no_newline: "10 \<notin> set (compact_line d n row)"
  by (auto simp: compact_line_def compact_glyph_no_newline)

lemma compact_lines_map:
  "compact_lines d n row =
     map (\<lambda>i. compact_line d n (row + 2 * int i)) [0..<nat ((n - row + 1) div 2)]"
proof (induction d n row rule: compact_lines.induct)
  case (1 d n row)
  show ?case
  proof (cases "row < n")
    case True
    then have cnt: "nat ((n - row + 1) div 2) = Suc (nat ((n - (row + 2) + 1) div 2))"
      by (simp add: nat_eq_iff)
    have "map (\<lambda>i. compact_line d n (row + 2 * int i)) [0..<Suc (nat ((n - (row + 2) + 1) div 2))] =
          compact_line d n row #
          map (\<lambda>i. compact_line d n (row + 2 + 2 * int i)) [0..<nat ((n - (row + 2) + 1) div 2)]"
      by (simp only: upt_conv_Cons [OF zero_less_Suc] list.map map_Suc_upt [symmetric] map_map)
        (simp add: comp_def algebra_simps)
    with True "1.IH" cnt show ?thesis
      by (subst compact_lines.simps) simp
  next
    case False
    then show ?thesis by (subst compact_lines.simps) simp
  qed
qed

lemma getDataAt_past_rows: "getDataAt d x (int (length d)) v = Some v"
  by (simp add: getDataAt_def)

lemma compact_glyph_over_dark:
  "compact_glyph (Some t) (Some True) = [if t then 32 else 0x2580]"
  by (simp add: compact_glyph_def)

lemma compact_line_last:
  assumes len: "length d = n" and rows: "list_all (\<lambda>row. length row = n) d" and pos: "0 < n"
  shows "compact_line d (int n) (int n - 1) = map (\<lambda>m. if m then 32 else 0x2580) (last d)"
proof -
  from len pos have ne: "d \<noteq> []" by auto
  from ne len have last: "last d = d ! (n - 1)" by (simp add: last_conv_nth)
  from rows len pos have ll: "length (d ! (n - 1)) = n" by (simp add: list_all_length)
  have probe: "getDataAt d (int col) (int n - 1) True = Some (d ! (n - 1) ! col)" if "col < n" for col
    using that len ll pos by (simp add: getDataAt_def index_def nat_diff_distrib)
  have below: "getDataAt d x (int n - 1 + 1) True = Some True" for x
    using getDataAt_past_rows [of d x True] len by simp
  have "compact_line d (int n) (int n - 1) =
          concat (map (\<lambda>col. [if d ! (n - 1) ! col then 32 else 0x2580]) [0..<n])"
    unfolding compact_line_def below
    by (intro arg_cong [where f = concat] map_cong)
      (simp_all add: probe compact_glyph_over_dark)
  also have "\<dots> = map (\<lambda>col. if d ! (n - 1) ! col then 32 else 0x2580) [0..<n]"
    by (rule concat_singletons)
  also have "\<dots> = map (\<lambda>m. if m then 32 else 0x2580) (map (nth (d ! (n - 1))) [0..<length (d ! (n - 1))])"
    using ll by (simp add: comp_def)
  also have "\<dots> = map (\<lambda>m. if m then 32 else 0x2580) (last d)"
    by (simp only: map_nth last)
  finally show ?thesis .
qed

text \<open>
  C1, as the code has it. The probe of \<open>renderUnicodeCompact\<close> is the accessor with
  the default \<open>true\<close> (dark). On a result of odd size that satisfies the invariant the
  probe of the row \<open>y = size\<close> yields dark; line \<open>i\<close> of the output is made of the glyphs
  of the probes of rows \<open>2i\<close> and \<open>2i + 1\<close>; and in the last line a dark module of the last
  row is a space (both dark) and a light module of the last row is U+2580 (upper half).
\<close>

theorem renderUnicodeCompact_odd_last_line:
  assumes enc: "encode q dat opts = Inr r" and wf: "wf_result r" and odd: "odd (size_r r)"
  shows "(\<forall>x. getDataAt (data r) x (size_r r) True = Some True) \<and>
     (\<exists>out. renderUnicodeCompact q dat opts = Inr out \<and>
        split 10 out =
          map (\<lambda>i. concat (map (\<lambda>col.
                  compact_glyph (getDataAt (data r) (int col) (2 * int i) True)
                                (getDataAt (data r) (int col) (2 * int i + 1) True))
                [0..<nat (size_r r)]))
            [0..<nat ((size_r r + 1) div 2)] \<and>
        last (split 10 out) = map (\<lambda>m. if m then 32 else 0x2580) (last (data r)))"
proof -
  let ?d = "data r" and ?n = "size_r r"
  let ?lines = "compact_lines ?d ?n 0"
  from wf have nn: "0 \<le> ?n" and len: "length ?d = nat ?n"
    and rows: "list_all (\<lambda>row. length row = nat ?n) ?d"
    by (simp_all add: wf_result_def)
  from nn odd have pos: "0 < nat ?n" by (cases "?n = 0") auto
  from nn len have n: "?n = int (length ?d)" by simp
  have probe: "\<forall>x. getDataAt ?d x ?n True = Some True"
    by (subst n) (simp add: getDataAt_past_rows)
  have lines: "?lines = map (\<lambda>i. compact_line ?d ?n (2 * int i)) [0..<nat ((?n + 1) div 2)]"
    using compact_lines_map [of ?d ?n 0] by simp
  from pos have cnt: "0 < nat ((?n + 1) div 2)" by simp
  then have ne: "?lines \<noteq> []" by (simp add: lines)
  have nonl: "\<forall>l \<in> set ?lines. 10 \<notin> set l"
    by (auto simp: lines compact_line_no_newline)
  have sp: "split 10 (join [10] ?lines) = ?lines" by (rule split_join [OF ne nonl])
  from odd nn have idx: "2 * int (nat ((?n + 1) div 2) - 1) = ?n - 1"
    by (elim oddE) simp
  from cnt have "last ?lines = compact_line ?d ?n (2 * int (nat ((?n + 1) div 2) - 1))"
    by (simp add: lines last_conv_nth)
  also have "\<dots> = compact_line ?d (int (nat ?n)) (int (nat ?n) - 1)"
    using nn by (simp only: idx int_nat_eq if_True)
  also have "\<dots> = map (\<lambda>m. if m then 32 else 0x2580) (last ?d)"
    by (rule compact_line_last [OF len rows pos])
  finally have last: "last ?lines = map (\<lambda>m. if m then 32 else 0x2580) (last ?d)" .
  have out: "renderUnicodeCompact q dat opts = Inr (join [10] ?lines)"
    by (simp add: renderUnicodeCompact_def enc)
  from probe out sp last show ?thesis
    by (simp add: lines compact_line_def del: split.simps)
qed

lemma sample_encode_default:
  "encode sample_imports (Str []) no_options =
     Inr \<lparr>version = 1, maskPattern = 0, size_r = 5,
          data = [[False, False, False, False, False],
                  [False, True, False, True, False],
                  [False, False, True, False, False],
                  [False, True, True, True, False],
                  [False, False, False, False, False]],
          types = [[- 1, - 1, - 1, - 1, - 1],
                   [- 1, 2, 0, 2, - 1],
                   [- 1, 0, 0, 0, - 1],
                   [- 1, 2, 1, 2, - 1],
                   [- 1, - 1, - 1, - 1, - 1]]\<rparr>"
  by code_simp

lemma sample_encode_plain:
  "encode sample_imports (Str []) (no_options\<lparr>border := Some 0\<rparr>) = Inr (to_result sample_qr)"
  by code_simp

lemma sample_plain_wf: "wf_result (to_result sample_qr)"
  by (simp add: wf_result_def to_result_def sample_qr_def)

theorem renderUnicode_default_witness:
  "renderUnicode sample_imports (Str []) no_options =
     Inr [0x2588, 0x2588, 0x2588, 0x2588, 0x2588, 10,
          0x2588, 0x2591, 0x2588, 0x2591, 0x2588, 10,
          0x2588, 0x2588, 0x2591, 0x2588, 0x2588, 10,
          0x2588, 0x2591, 0x2591, 0x2591, 0x2588, 10,
          0x2588, 0x2588, 0x2588, 0x2588, 0x2588] \<and>
   length (split 10
         [0x2588, 0x2588, 0x2588, 0x2588, 0x2588, 10,
          0x2588, 0x2591, 0x2588, 0x2591, 0x2588, 10,
          0x2588, 0x2588, 0x2591, 0x2588, 0x2588, 10,
          0x2588, 0x2591, 0x2591, 0x2591, 0x2588, 10,
          0x2588, 0x2588, 0x2588, 0x2588, 0x2588 :: nat]) = 5"
proof -
  let ?r = "\<lparr>version = 1, maskPattern = 0, size_r = 5,
          data = [[False, False, False, False, False],
                  [False, True, False, True, False],
                  [False, False, True, False, False],
                  [False, True, True, True, False],
                  [False, False, False, False, False]],
          types = [[- 1, - 1, - 1, - 1, - 1],
                   [- 1, 2, 0, 2, - 1],
                   [- 1, 0, 0, 0, - 1],
                   [- 1, 2, 1, 2, - 1],
                   [- 1, - 1, - 1, - 1, - 1 :: int]]\<rparr>"
  have wf: "wf_result ?r" by (simp add: wf_result_def)
  have pos: "0 < size_r ?r" by simp
  have wc: "whiteChar no_options = None" and bc: "blackChar no_options = None"
    by (simp_all add: no_options_def)
  from renderUnicode_default [OF sample_encode_default wf pos wc bc]
  obtain out where out: "renderUnicode sample_imports (Str []) no_options = Inr out"
    and sp: "split 10 out = map (map (\<lambda>m. if m then 0x2591 else 0x2588)) (data ?r)"
    and len: "length (split 10 out) = nat (size_r ?r)"
    by blast
  have "renderUnicode sample_imports (Str []) no_options =
     Inr [0x2588, 0x2588, 0x2588, 0x2588, 0x2588, 10,
          0x2588, 0x2591, 0x2588, 0x2591, 0x2588, 10,
          0x2588, 0x2588, 0x2591, 0x2588, 0x2588, 10,
          0x2588, 0x2591, 0x2591, 0x2591, 0x2588, 10,
          0x2588, 0x2588, 0x2588, 0x2588, 0x2588]"
    by (simp add: renderUnicode_def sample_encode_default wc bc dflt_def)
  with out len show ?thesis by simp
qed

text \<open>
  The last row of the sample matrix is all dark. The probe below it yields dark, and the
  last line of the compact rendering is three spaces, the glyph for both dark.
\<close>

theorem renderUnicodeCompact_light_default_counterexample:
  "last (modules sample_qr) = [True, True, True] \<and>
   encode sample_imports (Str []) (no_options\<lparr>border := Some 0\<rparr>) = Inr (to_result sample_qr) \<and>
   getDataAt (data (to_result sample_qr)) 0 (size_r (to_result sample_qr)) True = Some True \<and>
   renderUnicodeCompact sample_imports (Str []) (no_options\<lparr>border := Some 0\<rparr>) =
     Inr [0x2584, 0x2580, 0x2584, 10, 32, 32, 32]"
  by code_simp

theorem renderUnicodeCompact_odd_last_line_witness:
  "encode sample_imports (Str []) (no_options\<lparr>border := Some 0\<rparr>) = Inr (to_result sample_qr) \<and>
   wf_result (to_result sample_qr) \<and> odd (size_r (to_result sample_qr)) \<and>
   getDataAt (data (to_result sample_qr)) 2 (size_r (to_result sample_qr)) True = Some True \<and>
   (\<exists>out. renderUnicodeCompact sample_imports (Str []) (no_options\<lparr>border := Some 0\<rparr>) = Inr out \<and>
      last (split 10 out) = [32, 32, 32])"
proof -
  have odd: "odd (size_r (to_result sample_qr))"
    by (simp add: to_result_def sample_qr_def)
  have last: "last (data (to_result sample_qr)) = [True, True, True]"
    by (simp add: to_result_def sample_qr_def)
  from renderUnicodeCompact_odd_last_line [OF sample_encode_plain sample_plain_wf odd]
    sample_encode_plain sample_plain_wf odd
  show ?thesis unfolding last by auto
qed

section \<open>Vector renderer\<close>

lemma num_str_safe: "safe_integer i \<Longrightarrow> num_str i = Some (decimal i)"
  by (simp add: num_str_def)

lemma svg_square_safe:
  "safe_integer x \<Longrightarrow> safe_integer y \<Longrightarrow> safe_integer p \<Longrightarrow>
   svg_square x y p = Some (square_path x y p)"
  by (simp add: svg_square_def square_path_def num_str_safe)

lemma safe_scale:
  assumes "0 \<le> a" and "a \<le> b" and "safe_integer (b * p)"
  shows "safe_integer (a * p)"
proof -
  from assms(1,2) have "\<bar>a * p\<bar> \<le> \<bar>b * p\<bar>"
    by (simp add: abs_mult mult_right_mono)
  with assms(3) show ?thesis by (simp add: safe_integer_def)
qed

lemma svg_cols_ok:
  assumes "row < length d"
    and "\<forall>col \<in> set cols. safe_integer (int col * p) \<and> safe_integer (int row * p) \<and> safe_integer p"
  shows "svg_cols d p row cols acc =
           Some (Inr (acc @ map (\<lambda>col. square_path (int col * p) (int row * p) p)
                        (filter (\<lambda>col. col < length (d ! row) \<and> d ! row ! col) cols)))"
  using assms by (induction cols arbitrary: acc) (simp_all add: index_def svg_square_safe)

lemma svg_rows_ok:
  assumes "\<forall>row \<in> set rows. row < length d \<and> safe_integer (int row * p)"
    and "\<forall>col < n. safe_integer (int col * p) \<and> safe_integer p"
  shows "svg_rows d p n rows acc =
           Some (Inr (acc @ concat (map (\<lambda>row. map (\<lambda>col. square_path (int col * p) (int row * p) p)
                        (filter (\<lambda>col. col < length (d ! row) \<and> d ! row ! col) [0..<n])) rows)))"
  using assms by (induction rows arbitrary: acc) (simp_all add: svg_cols_ok)

lemma svg_rows_square:
  assumes len: "length d = n" and rows: "list_all (\<lambda>row. length row = n) d"
    and sp: "safe_integer p" and sw: "safe_integer (int n * p)"
  shows "svg_rows d p n [0..<n] [] =
           Some (Inr (map (\<lambda>(row, col). square_path (int col * p) (int row * p) p) (dark_cells d)))"
proof -
  have below: "safe_integer (int i * p)" if "i < n" for i
    using that by (intro safe_scale [OF _ _ sw]) simp_all
  have inr: "\<forall>row \<in> set [0..<n]. row < length d \<and> safe_integer (int row * p)"
    using len below by simp
  have cols: "\<forall>col < n. safe_integer (int col * p) \<and> safe_integer p"
    using below sp by simp
  have f: "filter (\<lambda>col. col < length (d ! row) \<and> d ! row ! col) [0..<n] =
           filter (\<lambda>col. d ! row ! col) [0..<length (d ! row)]" if "row < n" for row
  proof -
    from that rows len have "length (d ! row) = n" by (simp add: list_all_length)
    then show ?thesis by (auto intro: filter_cong)
  qed
  have "concat (map (\<lambda>row. map (\<lambda>col. square_path (int col * p) (int row * p) p)
                        (filter (\<lambda>col. col < length (d ! row) \<and> d ! row ! col) [0..<n])) [0..<n]) =
        concat (map (\<lambda>row. map (\<lambda>col. square_path (int col * p) (int row * p) p)
                        (filter (\<lambda>col. d ! row ! col) [0..<length (d ! row)])) [0..<n])"
    by (intro arg_cong [where f = concat] map_cong) (simp_all add: f)
  also have "\<dots> = map (\<lambda>(row, col). square_path (int col * p) (int row * p) p) (dark_cells d)"
    by (simp add: dark_cells_def map_concat comp_def len)
  finally show ?thesis by (simp add: svg_rows_ok [OF inr cols])
qed

lemma digits_range: "c \<in> set (digits n) \<Longrightarrow> 48 \<le> c \<and> c \<le> 57"
proof (induction n rule: digits.induct)
  case (1 n)
  show ?case
  proof (cases "n < 10")
    case True
    with "1.prems" show ?thesis by (subst (asm) digits.simps) simp
  next
    case False
    with "1.prems" have "c \<in> set (digits (n div 10)) \<or> c = 48 + n mod 10"
      by (subst (asm) digits.simps) auto
    with False "1.IH" show ?thesis by auto
  qed
qed

lemma decimal_chars: "c \<in> set (decimal i) \<Longrightarrow> c = 45 \<or> (48 \<le> c \<and> c \<le> 57)"
  by (auto simp: decimal_def dest: digits_range split: if_splits)

lemma path_commands_append [simp]: "path_commands (a @ b) = path_commands a + path_commands b"
  by (simp add: path_commands_def)

lemma path_commands_Cons:
  "path_commands (c # cs) = (if is_path_command c then 1 else 0) + path_commands cs"
  by (simp add: path_commands_def)

lemma path_commands_decimal [simp]: "path_commands (decimal i) = 0"
  by (auto simp: path_commands_def filter_empty_conv is_path_command_def ascii_def
      dest!: decimal_chars)

lemma path_commands_square: "path_commands (square_path x y p) = 5"
  by (simp add: square_path_def)
    (simp add: ascii_def path_commands_Cons is_path_command_def path_commands_def)

lemma path_commands_concat: "path_commands (concat xs) = sum_list (map path_commands xs)"
  by (induction xs) (simp_all add: path_commands_def)

lemma path_commands_path_d: "path_commands (svg_path_d d p) = 5 * length (dark_cells d)"
proof -
  have "map path_commands (map (\<lambda>(row, col). square_path (int col * p) (int row * p) p) cells) =
        replicate (length cells) 5" for cells
    by (induction cells) (auto simp: path_commands_square)
  then show ?thesis
    by (simp add: svg_path_d_def path_commands_concat sum_list_replicate)
qed

lemma dark_in_row: "length (filter (\<lambda>col. row ! col) [0..<length row]) = length (filter id row)"
proof -
  have "filter id row = filter id (map (nth row) [0..<length row])" by (simp add: map_nth)
  also have "\<dots> = map (nth row) (filter (\<lambda>col. row ! col) [0..<length row])"
    by (simp add: filter_map comp_def)
  finally show ?thesis by simp
qed

lemma length_dark_cells: "length (dark_cells d) = count_dark d"
proof -
  have "length (dark_cells d) =
        sum_list (map (\<lambda>row. length (filter id (d ! row))) [0..<length d])"
    by (simp add: dark_cells_def length_concat comp_def dark_in_row)
  also have "\<dots> = sum_list (map (\<lambda>row. length (filter id row)) (map (nth d) [0..<length d]))"
    by (simp add: comp_def)
  also have "\<dots> = count_dark d"
    by (simp only: map_nth) (simp add: count_dark_def filter_concat length_concat comp_def)
  finally show ?thesis .
qed

lemma occurrences_skip:
  "c \<notin> set xs \<Longrightarrow> occurrences (c # p) (xs @ ys) = occurrences (c # p) ys"
  by (induction xs) auto

lemma no_lt_decimal: "60 \<notin> set (decimal i)"
  by (auto dest: decimal_chars)

lemma no_lt_square: "60 \<notin> set (square_path x y p)"
  by (auto simp: square_path_def ascii_def dest: decimal_chars)

lemma no_lt_path_d: "60 \<notin> set (svg_path_d d p)"
  by (auto simp: svg_path_d_def no_lt_square)

lemma occurrences_markup:
  assumes "60 \<notin> set w" and "60 \<notin> set h" and "60 \<notin> set white" and "60 \<notin> set black"
    and "60 \<notin> set pd"
  shows \<open>occurrences (ascii ''<path'')
           (ascii ''<svg xmlns="http://www.w3.org/2000/svg" viewBox="0 0 '' @ w @ ascii '' '' @ h @
            ascii ''">'' @
            ascii ''<rect fill="'' @ white @ ascii ''" width="'' @ w @ ascii ''" height="'' @ h @
            ascii ''"/>'' @
            ascii ''<path fill="'' @ black @ ascii ''" d="'' @ pd @ ascii ''"/>'' @
            ascii ''</svg>'') = 1 \<and>
         occurrences (ascii ''<rect'')
           (ascii ''<svg xmlns="http://www.w3.org/2000/svg" viewBox="0 0 '' @ w @ ascii '' '' @ h @
            ascii ''">'' @
            ascii ''<rect fill="'' @ white @ ascii ''" width="'' @ w @ ascii ''" height="'' @ h @
            ascii ''"/>'' @
            ascii ''<path fill="'' @ black @ ascii ''" d="'' @ pd @ ascii ''"/>'' @
            ascii ''</svg>'') = 1\<close>
  using assms by (simp add: ascii_def occurrences_skip)

text \<open>
  C3, as the code has it. On a result that satisfies the invariant, for a pixel size
  that is a safe integer whose product with the size is one too, \<open>renderSVG\<close> returns
  the \<open>svg\<close> element with view box \<open>0 0 w w\<close>, where \<open>w\<close> is the size times the pixel
  size, holding one \<open>rect\<close> filled with the white colour, of width and height \<open>w\<close>, and
  one \<open>path\<close> filled with the black colour, whose data are the squares of the dark
  modules. Each square is five commands (M, h, v, h, z), so the number of path commands is
  five times the number of dark modules. The colours are copied into the markup as they
  are: when neither contains the character \<open><\<close>, the output has exactly one place where
  \<open><path\<close> starts and one where \<open><rect\<close> starts.
\<close>

theorem renderSVG_structure:
  assumes enc: "encode q dat opts = Inr r" and wf: "wf_result r"
    and p: "p = dflt 10 (pixelSize opts)"
    and white: "white = dflt (ascii ''white'') (whiteColor opts)"
    and black: "black = dflt (ascii ''black'') (blackColor opts)"
    and sp: "safe_integer p" and sw: "safe_integer (size_r r * p)"
    and w: "w = decimal (size_r r * p)"
  shows \<open>\<exists>out. renderSVG q dat opts = Some (Inr out) \<and>
           out = ascii ''<svg xmlns="http://www.w3.org/2000/svg" viewBox="0 0 '' @ w @ ascii '' '' @ w @
                 ascii ''">'' @
                 ascii ''<rect fill="'' @ white @ ascii ''" width="'' @ w @ ascii ''" height="'' @ w @
                 ascii ''"/>'' @
                 ascii ''<path fill="'' @ black @ ascii ''" d="'' @ svg_path_d (data r) p @ ascii ''"/>'' @
                 ascii ''</svg>'' \<and>
           path_commands (svg_path_d (data r) p) = 5 * count_dark (data r) \<and>
           (60 \<notin> set white \<and> 60 \<notin> set black \<longrightarrow>
              occurrences (ascii ''<path'') out = 1 \<and> occurrences (ascii ''<rect'') out = 1)\<close>
proof -
  from wf have nn: "0 \<le> size_r r" and len: "length (data r) = nat (size_r r)"
    and rows: "list_all (\<lambda>row. length row = nat (size_r r)) (data r)"
    by (simp_all add: wf_result_def)
  from nn sw have sw': "safe_integer (int (nat (size_r r)) * p)" by simp
  have width: "num_str (size_r r * p) = Some w"
    by (simp add: num_str_safe [OF sw] w)
  have out: \<open>renderSVG q dat opts =
     Some (Inr (ascii ''<svg xmlns="http://www.w3.org/2000/svg" viewBox="0 0 '' @ w @ ascii '' '' @ w @
                 ascii ''">'' @
                 ascii ''<rect fill="'' @ white @ ascii ''" width="'' @ w @ ascii ''" height="'' @ w @
                 ascii ''"/>'' @
                 ascii ''<path fill="'' @ black @ ascii ''" d="'' @ svg_path_d (data r) p @ ascii ''"/>'' @
                 ascii ''</svg>''))\<close>
    unfolding renderSVG_def enc sum.case Let_def p [symmetric] white [symmetric] black [symmetric]
      width option.case svg_rows_square [OF len rows sp sw']
    by (simp add: join_empty_sep svg_path_d_def)
  have cnt: "path_commands (svg_path_d (data r) p) = 5 * count_dark (data r)"
    by (simp add: path_commands_path_d length_dark_cells)
  have nw: "60 \<notin> set w" by (simp add: w no_lt_decimal)
  from out cnt occurrences_markup [OF nw nw _ _ no_lt_path_d, of white black "data r" p]
  show ?thesis by blast
qed

lemma sample_renderSVG:
  \<open>renderSVG sample_imports (Str []) (no_options\<lparr>border := Some 0\<rparr>) =
     Some (Inr (ascii ''<svg xmlns="http://www.w3.org/2000/svg" viewBox="0 0 30 30">'' @
          ascii ''<rect fill="white" width="30" height="30"/>'' @
          ascii ''<path fill="black" d="'' @
          ascii ''M0,0h10v10h-10zM20,0h10v10h-10zM10,10h10v10h-10z'' @
          ascii ''M0,20h10v10h-10zM10,20h10v10h-10zM20,20h10v10h-10z'' @
          ascii ''"/></svg>''))\<close>
  by code_simp

lemma sample_renderSVG_colour:
  \<open>renderSVG sample_imports (Str [])
       (no_options\<lparr>border := Some 0, whiteColor := Some (ascii ''"/><path d="'')\<rparr>) =
     Some (Inr (ascii ''<svg xmlns="http://www.w3.org/2000/svg" viewBox="0 0 30 30">'' @
          ascii ''<rect fill=""/><path d="" width="30" height="30"/>'' @
          ascii ''<path fill="black" d="'' @
          ascii ''M0,0h10v10h-10zM20,0h10v10h-10zM10,10h10v10h-10z'' @
          ascii ''M0,20h10v10h-10zM10,20h10v10h-10zM20,20h10v10h-10z'' @
          ascii ''"/></svg>''))\<close>
  by code_simp

text \<open>
  The sample matrix has six dark modules and its path data thirty commands, not
  twenty-four. With a white colour that closes the \<open>rect\<close> and opens a \<open>path\<close>, the
  output holds two \<open>path\<close> elements.
\<close>

theorem renderSVG_commands_and_colour_counterexample:
  \<open>renderSVG sample_imports (Str []) (no_options\<lparr>border := Some 0\<rparr>) =
     Some (Inr (ascii ''<svg xmlns="http://www.w3.org/2000/svg" viewBox="0 0 30 30">'' @
          ascii ''<rect fill="white" width="30" height="30"/>'' @
          ascii ''<path fill="black" d="'' @
          ascii ''M0,0h10v10h-10zM20,0h10v10h-10zM10,10h10v10h-10z'' @
          ascii ''M0,20h10v10h-10zM10,20h10v10h-10zM20,20h10v10h-10z'' @
          ascii ''"/></svg>'')) \<and>
   count_dark (modules sample_qr) = 6 \<and>
   path_commands (ascii ''M0,0h10v10h-10zM20,0h10v10h-10zM10,10h10v10h-10z'' @
                  ascii ''M0,20h10v10h-10zM10,20h10v10h-10zM20,20h10v10h-10z'') = 30 \<and>
   path_commands (ascii ''M0,0h10v10h-10zM20,0h10v10h-10zM10,10h10v10h-10z'' @
                  ascii ''M0,20h10v10h-10zM10,20h10v10h-10zM20,20h10v10h-10z'') \<noteq>
     4 * count_dark (modules sample_qr) \<and>
   renderSVG sample_imports (Str [])
       (no_options\<lparr>border := Some 0, whiteColor := Some (ascii ''"/><path d="'')\<rparr>) =
     Some (Inr (ascii ''<svg xmlns="http://www.w3.org/2000/svg" viewBox="0 0 30 30">'' @
          ascii ''<rect fill=""/><path d="" width="30" height="30"/>'' @
          ascii ''<path fill="black" d="'' @
          ascii ''M0,0h10v10h-10zM20,0h10v10h-10zM10,10h10v10h-10z'' @
          ascii ''M0,20h10v10h-10zM10,20h10v10h-10zM20,20h10v10h-10z'' @
          ascii ''"/></svg>'')) \<and>
   occurrences (ascii ''<path'')
     (ascii ''<svg xmlns="http://www.w3.org/2000/svg" viewBox="0 0 30 30">'' @
      ascii ''<rect fill=""/><path d="" width="30" height="30"/>'' @
      ascii ''<path fill="black" d="'' @
      ascii ''M0,0h10v10h-10zM20,0h10v10h-10zM10,10h10v10h-10z'' @
      ascii ''M0,20h10v10h-10zM10,20h10v10h-10zM20,20h10v10h-10z'' @
      ascii ''"/></svg>'') = 2\<close>
proof -
  have dark: "count_dark (modules sample_qr) = 6"
    by code_simp
  have cmds: "path_commands (ascii ''M0,0h10v10h-10zM20,0h10v10h-10zM10,10h10v10h-10z'' @
                  ascii ''M0,20h10v10h-10zM10,20h10v10h-10zM20,20h10v10h-10z'') = 30"
    by code_simp
  have twice: \<open>occurrences (ascii ''<path'')
     (ascii ''<svg xmlns="http://www.w3.org/2000/svg" viewBox="0 0 30 30">'' @
      ascii ''<rect fill=""/><path d="" width="30" height="30"/>'' @
      ascii ''<path fill="black" d="'' @
      ascii ''M0,0h10v10h-10zM20,0h10v10h-10zM10,10h10v10h-10z'' @
      ascii ''M0,20h10v10h-10zM10,20h10v10h-10zM20,20h10v10h-10z'' @
      ascii ''"/></svg>'') = 2\<close>
    by code_simp
  from sample_renderSVG sample_renderSVG_colour dark cmds twice show ?thesis by simp
qed

theorem renderSVG_structure_witness:
  \<open>encode sample_imports (Str []) (no_options\<lparr>border := Some 0\<rparr>) = Inr (to_result sample_qr) \<and>
   wf_result (to_result sample_qr) \<and>
   safe_integer 10 \<and> safe_integer (size_r (to_result sample_qr) * 10) \<and>
   60 \<notin> set (ascii ''white'') \<and> 60 \<notin> set (ascii ''black'') \<and>
   path_commands (svg_path_d (data (to_result sample_qr)) 10) =
     5 * count_dark (data (to_result sample_qr)) \<and>
   (\<exists>out. renderSVG sample_imports (Str []) (no_options\<lparr>border := Some 0\<rparr>) = Some (Inr out) \<and>
      occurrences (ascii ''<path'') out = 1 \<and> occurrences (ascii ''<rect'') out = 1)\<close>
proof -
  let ?opts = "no_options\<lparr>border := Some 0\<rparr>"
  have p: "10 = dflt 10 (pixelSize ?opts)"
    and white: "ascii ''white'' = dflt (ascii ''white'') (whiteColor ?opts)"
    and black: "ascii ''black'' = dflt (ascii ''black'') (blackColor ?opts)"
    by (simp_all add: no_options_def dflt_def)
  have colours: "60 \<notin> set (ascii ''white'') \<and> 60 \<notin> set (ascii ''black'')"
    by (simp add: ascii_def)
  have sp: "safe_integer 10" by (simp add: safe_integer_def)
  have sw: "safe_integer (size_r (to_result sample_qr) * 10)"
    by (simp add: safe_integer_def to_result_def sample_qr_def)
  from renderSVG_structure [OF sample_encode_plain sample_plain_wf p white black sp sw refl]
    colours sample_encode_plain sample_plain_wf sp sw
  show ?thesis by blast
qed

end
